theory Spec2Isabelle
  imports Main "HOL-Library.Sublist"
begin

section \<open>Python string operations used by tasks.py\<close>

text \<open>
  The fleet's fixed domain, the literal \<^verbatim>\<open>".nix-community.org"\<close> that occurs in
  \<^verbatim>\<open>get_hosts\<close>, \<^verbatim>\<open>deploy_nixos\<close> and \<^verbatim>\<open>build_local\<close>, and the
  marker tested by \<^verbatim>\<open>"darwin" in ...\<close>.
\<close>

definition domain :: string where
  "domain = ''.nix-community.org''"

definition darwin :: string where
  "darwin = ''darwin''"

text \<open>Python's \<^verbatim>\<open>sub in s\<close> on strings: \<open>sub\<close> occurs in \<open>s\<close> as a contiguous run.\<close>

fun contains :: "string \<Rightarrow> string \<Rightarrow> bool" where
  "contains sub [] = (sub = [])"
| "contains sub (c # cs) = (prefix sub (c # cs) \<or> contains sub cs)"

text \<open>
  Python's \<^verbatim>\<open>s.split(sep)\<close> for a separator of one character: the text is cut at
  every separator, empty tokens are kept, and the empty text gives one empty token.
  A character that is not the separator goes in front of the first token of the
  rest; the rest always has one (\<open>split_not_Nil\<close> below).
\<close>

fun split :: "char \<Rightarrow> string \<Rightarrow> string list" where
  "split sep [] = [[]]"
| "split sep (c # cs) =
     (if c = sep then [] # split sep cs
      else (case split sep cs of
              w # ws \<Rightarrow> (c # w) # ws
            | [] \<Rightarrow> [[c]]))"

text \<open>
  Python's \<^verbatim>\<open>s.replace(old, new)\<close>: scanning from the left, every occurrence of
  \<open>old\<close> that does not overlap an earlier one is replaced by \<open>new\<close>. For the
  empty \<open>old\<close> Python puts \<open>new\<close> before every character and at the end.
\<close>

function replace :: "string \<Rightarrow> string \<Rightarrow> string \<Rightarrow> string" where
  "replace old new s =
     (if old = [] then concat (map (\<lambda>c. new @ [c]) s) @ new
      else if s = [] then []
      else if prefix old s then new @ replace old new (drop (length old) s)
      else hd s # replace old new (tl s))"
  by pat_completeness auto
termination
  by (relation "measure (\<lambda>(old, new, s). length s)") (auto simp: neq_Nil_conv)

declare replace.simps [simp del]

section \<open>Hosts\<close>

text \<open>
  \<^verbatim>\<open>deploykit.DeployHost\<close> as tasks.py builds and reads it: the address, the login
  user and the SSH port. tasks.py passes the user only on the darwin path and never
  passes a port; an argument that is not passed is \<open>None\<close>, the constructor's default.
\<close>

record DeployHost =
  host :: string
  user :: "string option"
  port :: "int option"

text \<open>What an f-string prints for an optional text: the text, or \<^verbatim>\<open>None\<close>.\<close>

fun fmt :: "string option \<Rightarrow> string" where
  "fmt None = ''None''"
| "fmt (Some s) = s"

text \<open>
  The exceptions of the program. \<open>OSError\<close> stands for \<^verbatim>\<open>OSError\<close> and its
  subclasses: a refused connection, a timeout, a failed name resolution, a broken
  pipe. The others are not subclasses of \<^verbatim>\<open>OSError\<close>.
\<close>

datatype os_error = ConnectionRefused | TimedOut | NameResolution | BrokenPipe | OtherOSError

datatype error =
    CalledProcessError
  | JSONDecodeError
  | KeyError string
  | OSError os_error
  | UnicodeError
  | ValueError

fun is_OSError :: "error \<Rightarrow> bool" where
  "is_OSError (OSError e) = True"
| "is_OSError x = False"

section \<open>Host selection: \<^verbatim>\<open>get_hosts\<close>\<close>

text \<open>
  \<^verbatim>\<open>get_hosts(hosts)\<close>. With the empty spec the function runs
  \<^verbatim>\<open>nix flake show --json --all-systems\<close>, parses the output and iterates over
  \<^verbatim>\<open>data["nixosConfigurations"]\<close>; \<open>inventory\<close> is what that gives: the declared
  names in iteration order, or the exception raised on the way. Otherwise the test
  for the darwin marker and the comparison with \<^verbatim>\<open>"darwin01"\<close> are made on the
  whole spec, and the spec is cut at the commas.
\<close>

definition get_hosts :: "error + string list \<Rightarrow> string \<Rightarrow> error + DeployHost list" where
  "get_hosts inventory hosts =
     (if hosts = '''' then
        (case inventory of
           Inl e \<Rightarrow> Inl e
         | Inr systems \<Rightarrow>
             Inr (map (\<lambda>n. \<lparr>host = n @ domain, user = None, port = None\<rparr>) systems))
      else if contains darwin hosts then
        (if hosts = ''darwin01'' then
           Inr [\<lparr>host = ''darwin01.nix-community.org'', user = Some ''customer'', port = None\<rparr>]
         else
           Inr (map (\<lambda>h. \<lparr>host = h @ domain, user = Some ''hetzner'', port = None\<rparr>)
                  (split (CHR '','') hosts)))
      else
        Inr (map (\<lambda>h. \<lparr>host = h @ domain, user = None, port = None\<rparr>)
               (split (CHR '','') hosts)))"

section \<open>The per-host deploy unit of \<^verbatim>\<open>deploy_nixos\<close>\<close>

text \<open>
  What the program does to the outside world, in the order it does it:
  \<^verbatim>\<open>h.run_local(argv)\<close>, \<^verbatim>\<open>h.run(cmd)\<close>, a write to standard output, a flush of
  it, \<^verbatim>\<open>socket.create_connection((host, port), timeout=1)\<close>, the closing of the
  socket when its \<^verbatim>\<open>with\<close> block is left, and \<^verbatim>\<open>time.sleep\<close> (in milliseconds).
\<close>

datatype event =
    RunLocal DeployHost "string list"
  | Run DeployHost string
  | Write string
  | Flush
  | Connect string int
  | Close string int
  | Sleep nat

text \<open>
  The \<^verbatim>\<open>if\<close> at the head of the inner function \<^verbatim>\<open>deploy(h)\<close>: the command and the
  target, chosen together by the test for the darwin marker in the address.
\<close>

definition command_and_target :: "DeployHost \<Rightarrow> string \<times> string" where
  "command_and_target h =
     (if contains darwin (host h)
      then (''darwin-rebuild'', fmt (user h) @ ''@'' @ host h)
      else (''sudo nixos-rebuild'', host h))"

text \<open>
  The inner function \<^verbatim>\<open>deploy(h)\<close>. \<open>run_local\<close> stands for the archive call with
  the parsing of its output: it gives \<^verbatim>\<open>json.loads(res.stdout)["path"]\<close> or the
  exception raised on the way. \<open>run\<close> stands for the remote command, which
  \<^verbatim>\<open>h.run\<close> issues on the host \<open>h\<close> itself: \<open>None\<close> when it returns, the exception
  otherwise. The result is the calls made and how the unit ended.
\<close>

definition deploy ::
  "(DeployHost \<Rightarrow> string list \<Rightarrow> error + string) \<Rightarrow> (DeployHost \<Rightarrow> string \<Rightarrow> error option) \<Rightarrow>
   DeployHost \<Rightarrow> event list \<times> error option" where
  "deploy run_local run h =
     (let (command, target) = command_and_target h;
          argv = [''nix'', ''flake'', ''archive'', ''--to'', ''ssh://'' @ target, ''--json'']
      in case run_local h argv of
           Inl e \<Rightarrow> ([RunLocal h argv], Some e)
         | Inr path \<Rightarrow>
             (let hostname = replace domain [] (host h);
                  cmd = command @ '' switch --option accept-flake-config true --flake ''
                          @ path @ ''#'' @ hostname
              in ([RunLocal h argv, Run h cmd], run h cmd)))"

section \<open>Readiness polling: \<^verbatim>\<open>wait_for_port\<close>\<close>

text \<open>
  A connection attempt either connects or raises: an \<^verbatim>\<open>OSError\<close>, which the loop
  catches, or an exception of another class, such as the \<^verbatim>\<open>UnicodeError\<close> for a
  host name that cannot be encoded, which it does not catch.
\<close>

datatype probe = Connected | Raised error

text \<open>
  The outside world is a parameter, in two parts. \<open>net t host port\<close> is what the
  connection attempt number \<open>t\<close> of the run gives when it is made to \<open>(host, port)\<close>.
  \<open>sys n e\<close> is what any other call \<open>e\<close> gives when \<open>n\<close> events have happened before
  it: \<open>None\<close> when it returns, the exception otherwise. The state is the number of
  attempts made so far and the events so far.
\<close>

type_synonym net = "nat \<Rightarrow> string \<Rightarrow> int \<Rightarrow> probe"

type_synonym sys = "nat \<Rightarrow> event \<Rightarrow> error option"

record world =
  clock :: nat
  trace :: "event list"

definition create_connection :: "net \<Rightarrow> string \<Rightarrow> int \<Rightarrow> world \<Rightarrow> probe \<times> world" where
  "create_connection net h p w =
     (net (clock w) h p, \<lparr>clock = Suc (clock w), trace = trace w @ [Connect h p]\<rparr>)"

definition perform :: "sys \<Rightarrow> event \<Rightarrow> world \<Rightarrow> error option \<times> world" where
  "perform sys e w = (sys (length (trace w)) e, w\<lparr>trace := trace w @ [e]\<rparr>)"

text \<open>Statements in a row: the first exception ends the row.\<close>

fun perform_all :: "sys \<Rightarrow> event list \<Rightarrow> world \<Rightarrow> error option \<times> world" where
  "perform_all sys [] w = (None, w)"
| "perform_all sys (e # es) w =
     (case perform sys e w of
        (None, w') \<Rightarrow> perform_all sys es w'
      | (Some x, w') \<Rightarrow> (Some x, w'))"

text \<open>
  One pass through the body of \<^verbatim>\<open>while True\<close> either goes round again or leaves the
  loop: with \<^verbatim>\<open>break\<close> (\<open>Done None\<close>) or with an exception that nothing catches.
\<close>

datatype step = Again world | Done "error option" world

text \<open>
  The \<^verbatim>\<open>except OSError\<close> block. An exception raised inside it is not caught.
\<close>

definition handler :: "sys \<Rightarrow> bool \<Rightarrow> world \<Rightarrow> step" where
  "handler sys shutdown w =
     (if shutdown then Done None w
      else (case perform_all sys [Sleep 10, Write ''.'', Flush] w of
              (None, w') \<Rightarrow> Again w'
            | (Some x, w') \<Rightarrow> Done (Some x) w'))"

text \<open>An exception that leaves the \<^verbatim>\<open>try\<close> block: caught when it is an \<^verbatim>\<open>OSError\<close>.\<close>

definition leave_try :: "sys \<Rightarrow> bool \<Rightarrow> error \<Rightarrow> world \<Rightarrow> step" where
  "leave_try sys shutdown x w = (if is_OSError x then handler sys shutdown w else Done (Some x) w)"

text \<open>
  The \<^verbatim>\<open>try\<close> statement. The whole \<^verbatim>\<open>with\<close> statement is inside the \<^verbatim>\<open>try\<close>
  block: the connection attempt, the body, and the closing of the socket, which
  happens however the body is left and whose exception, if it raises, takes the
  place of the body's.
\<close>

definition attempt :: "net \<Rightarrow> sys \<Rightarrow> string \<Rightarrow> int \<Rightarrow> bool \<Rightarrow> world \<Rightarrow> step" where
  "attempt net sys h p shutdown w =
     (case create_connection net h p w of
        (Raised x, w1) \<Rightarrow> leave_try sys shutdown x w1
      | (Connected, w1) \<Rightarrow>
          (case (if shutdown then perform_all sys [Sleep 1000, Write ''.'', Flush] w1
                 else (None, w1)) of
             (body, w2) \<Rightarrow>
               (case perform sys (Close h p) w2 of
                  (Some y, w3) \<Rightarrow> leave_try sys shutdown y w3
                | (None, w3) \<Rightarrow>
                    (case body of
                       Some x \<Rightarrow> leave_try sys shutdown x w3
                     | None \<Rightarrow> if shutdown then Again w3 else Done None w3))))"

text \<open>
  The \<^verbatim>\<open>while True\<close> loop. It has no bound, so the function is partial: \<open>None\<close>
  is the loop that never leaves. Otherwise the result says how the call ended, with
  a return (\<open>None\<close>) or with an exception, and in which state.
\<close>

partial_function (option) wait_for_port ::
  "net \<Rightarrow> sys \<Rightarrow> string \<Rightarrow> int \<Rightarrow> bool \<Rightarrow> world \<Rightarrow> (error option \<times> world) option" where
  "wait_for_port net sys h p shutdown w =
     (case attempt net sys h p shutdown w of
        Again w' \<Rightarrow> wait_for_port net sys h p shutdown w'
      | Done r w' \<Rightarrow> Some (r, w'))"

section \<open>The \<^verbatim>\<open>reboot\<close> task\<close>

definition newline :: string where
  "newline = [CHR 0x0A]"

text \<open>\<^verbatim>\<open>h.port or 22\<close>: 22 when the port is \<^verbatim>\<open>None\<close> or 0.\<close>

definition port_or_22 :: "DeployHost \<Rightarrow> int" where
  "port_or_22 h = (case port h of None \<Rightarrow> 22 | Some p \<Rightarrow> if p = 0 then 22 else p)"

text \<open>
  The \<^verbatim>\<open>for\<close> loop over the hosts. Nothing in it catches an exception: one raised
  by \<^verbatim>\<open>h.run\<close>, by a \<^verbatim>\<open>print\<close>, by a flush or by a wait leaves the loop and the
  task. The result is \<open>None\<close> when a wait never returns.
\<close>

fun reboot_hosts ::
  "net \<Rightarrow> sys \<Rightarrow> DeployHost list \<Rightarrow> world \<Rightarrow> (error option \<times> world) option" where
  "reboot_hosts net sys [] w = Some (None, w)"
| "reboot_hosts net sys (h # hs) w =
     (case perform_all sys [Run h ''sudo reboot &'',
                            Write (''Wait for '' @ host h @ '' to shutdown''), Flush] w of
        (Some x, w1) \<Rightarrow> Some (Some x, w1)
      | (None, w1) \<Rightarrow>
          (case wait_for_port net sys (host h) (port_or_22 h) True w1 of
             None \<Rightarrow> None
           | Some (Some x, w2) \<Rightarrow> Some (Some x, w2)
           | Some (None, w2) \<Rightarrow>
               (case perform_all sys [Write newline,
                                      Write (''Wait for '' @ host h @ '' to start''), Flush] w2 of
                  (Some x, w3) \<Rightarrow> Some (Some x, w3)
                | (None, w3) \<Rightarrow>
                    (case wait_for_port net sys (host h) (port_or_22 h) False w3 of
                       None \<Rightarrow> None
                     | Some (Some x, w4) \<Rightarrow> Some (Some x, w4)
                     | Some (None, w4) \<Rightarrow>
                         (case perform sys (Write newline) w4 of
                            (Some x, w5) \<Rightarrow> Some (Some x, w5)
                          | (None, w5) \<Rightarrow> reboot_hosts net sys hs w5)))))"

definition reboot ::
  "error + string list \<Rightarrow> net \<Rightarrow> sys \<Rightarrow> string \<Rightarrow> world \<Rightarrow> (error option \<times> world) option" where
  "reboot inventory net sys hosts w =
     (case get_hosts inventory hosts of
        Inl e \<Rightarrow> Some (Some e, w)
      | Inr hs \<Rightarrow> reboot_hosts net sys hs w)"

section \<open>Vocabulary of the statements\<close>

text \<open>An outside world in which no call other than a connection attempt raises.\<close>

definition quiet :: "sys \<Rightarrow> bool" where
  "quiet sys = (\<forall>n e. sys n e = None)"

text \<open>A connection attempt that fails with an \<^verbatim>\<open>OSError\<close>.\<close>

fun os_failure :: "probe \<Rightarrow> bool" where
  "os_failure Connected = False"
| "os_failure (Raised x) = is_OSError x"

text \<open>
  The attempts after which the loop goes round again in a quiet world: with
  \<^verbatim>\<open>shutdown=True\<close> those that connect, otherwise those that fail with an
  \<^verbatim>\<open>OSError\<close>.
\<close>

definition stays :: "bool \<Rightarrow> probe \<Rightarrow> bool" where
  "stays shutdown r = (if shutdown then r = Connected else os_failure r)"

text \<open>
  How the call ends on an attempt that does not stay, and the events of that last
  round: the attempt and, when it connected, the closing of the socket.
\<close>

fun ending :: "probe \<Rightarrow> error option" where
  "ending Connected = None"
| "ending (Raised x) = (if is_OSError x then None else Some x)"

fun last_round :: "string \<Rightarrow> int \<Rightarrow> probe \<Rightarrow> event list" where
  "last_round h p Connected = [Connect h p, Close h p]"
| "last_round h p (Raised x) = [Connect h p]"

text \<open>
  The events of a round after which the loop goes round again, and of \<open>k\<close> such
  rounds.
\<close>

definition stay_round :: "string \<Rightarrow> int \<Rightarrow> bool \<Rightarrow> event list" where
  "stay_round h p shutdown =
     (if shutdown then [Connect h p, Sleep 1000, Write ''.'', Flush, Close h p]
      else [Connect h p, Sleep 10, Write ''.'', Flush])"

definition polls :: "string \<Rightarrow> int \<Rightarrow> bool \<Rightarrow> nat \<Rightarrow> event list" where
  "polls h p shutdown k = concat (replicate k (stay_round h p shutdown))"




text \<open>
  Stripping a suffix, as the specification words the derivation of the attribute
  name: the text without the suffix when it ends with it, the text itself otherwise.
\<close>

definition strip_suffix :: "string \<Rightarrow> string \<Rightarrow> string" where
  "strip_suffix suf s = (if suffix suf s then take (length s - length suf) s else s)"

subsection \<open>Concrete environments\<close>

text \<open>
  A scripted network: the attempts give the outcomes of the list in turn, and
  \<open>rest\<close> once the list is used up.
\<close>

definition scripted :: "probe list \<Rightarrow> probe \<Rightarrow> net" where
  "scripted rs rest t h p = (if t < length rs then rs ! t else rest)"

definition sys_ok :: sys where
  "sys_ok n e = None"

text \<open>A world in which standard output is a pipe whose reader has gone.\<close>

definition stdout_gone :: sys where
  "stdout_gone n e = (case e of Write s \<Rightarrow> Some (OSError BrokenPipe) | _ \<Rightarrow> None)"


definition ssh_ok :: "DeployHost \<Rightarrow> string \<Rightarrow> error option" where
  "ssh_ok h cmd = None"

definition archive_ok :: "DeployHost \<Rightarrow> string list \<Rightarrow> error + string" where
  "archive_ok h argv = Inr ''/nix/store/src''"

definition start :: world where
  "start = \<lparr>clock = 0, trace = []\<rparr>"

definition build01 :: DeployHost where
  "build01 = \<lparr>host = ''build01.nix-community.org'', user = None, port = None\<rparr>"

definition build02 :: DeployHost where
  "build02 = \<lparr>host = ''build02.nix-community.org'', user = None, port = None\<rparr>"

definition darwin02 :: DeployHost where
  "darwin02 = \<lparr>host = ''darwin02.nix-community.org'', user = Some ''hetzner'', port = None\<rparr>"

text \<open>
  The host that the empty spec resolves to for a declared name \<^verbatim>\<open>darwin03\<close> of the
  inventory: no user is passed.
\<close>

definition darwin03 :: DeployHost where
  "darwin03 = \<lparr>host = ''darwin03.nix-community.org'', user = None, port = None\<rparr>"

text \<open>
  The host that the spec \<^verbatim>\<open>build01.nix-community.org\<close>, a full name where a short
  one is expected, resolves to.
\<close>

definition build01_twice :: DeployHost where
  "build01_twice =
     \<lparr>host = ''build01.nix-community.org.nix-community.org'', user = None, port = None\<rparr>"



text \<open>
  A text no proper end of which is also a beginning of it: two occurrences of such a
  text never overlap.
\<close>

definition borderless :: "'a list \<Rightarrow> bool" where
  "borderless xs = list_all (\<lambda>j. \<not> prefix (drop j xs) xs) [1..<length xs]"

section \<open>Facts about the string operations\<close>

text \<open>\<open>contains\<close> is the contiguous-sublist relation of the library.\<close>

lemma contains_sublist: "contains sub s \<longleftrightarrow> sublist sub s"
  by (induction s) (auto simp: sublist_Cons_right)

lemma borderless_domain: "borderless domain"
  unfolding borderless_def domain_def by code_simp

lemma prefix_no_straddle:
  assumes "borderless old" and "n \<noteq> []" and "prefix old (n @ old)"
  shows "prefix old n"
proof (cases "length n < length old")
  case False
  then have "length old \<le> length n" by simp
  with assms(3) show ?thesis
    using prefix_length_prefix[of old "n @ old" n] by simp
next
  case True
  from assms(3) obtain zs where eq: "n @ old = old @ zs" by (auto simp: prefix_def)
  then have "drop (length n) (n @ old) = drop (length n) (old @ zs)" by simp
  then have "old = drop (length n) old @ zs" using True by simp
  then have "prefix (drop (length n) old) old" by (metis prefixI)
  moreover have "length n \<in> set [1..<length old]" using True assms(2) by (cases n) auto
  ultimately show ?thesis using assms(1) by (auto simp: borderless_def list_all_iff)
qed

lemma replace_Nil: "old \<noteq> [] \<Longrightarrow> replace old new [] = []"
  by (simp add: replace.simps)

lemma replace_hit:
  "old \<noteq> [] \<Longrightarrow> prefix old s \<Longrightarrow> replace old new s = new @ replace old new (drop (length old) s)"
  by (subst replace.simps) auto

lemma replace_miss:
  "old \<noteq> [] \<Longrightarrow> \<not> prefix old (c # s) \<Longrightarrow> replace old new (c # s) = c # replace old new s"
  by (subst replace.simps) auto

lemma replace_strips:
  assumes "borderless old" and "old \<noteq> []" and "\<not> contains old n"
  shows "replace old [] (n @ old) = n"
  using assms(3)
proof (induction n)
  case Nil
  show ?case using assms(2) by (simp add: replace_hit replace_Nil)
next
  case (Cons x n)
  from Cons.prems have np: "\<not> prefix old (x # n)" and nc: "\<not> contains old n"
    by simp_all
  have "\<not> prefix old ((x # n) @ old)"
    using prefix_no_straddle[OF assms(1), of "x # n"] np by blast
  then have "replace old [] ((x # n) @ old) = x # replace old [] (n @ old)"
    using assms(2) by (simp add: replace_miss)
  with Cons.IH[OF nc] show ?case by simp
qed

lemma replace_domain_strips:
  "\<not> contains domain n \<Longrightarrow> replace domain [] (n @ domain) = n"
  by (rule replace_strips[OF borderless_domain]) (simp_all add: domain_def)

lemma strip_suffix_append: "strip_suffix suf (n @ suf) = n"
  by (simp add: strip_suffix_def suffix_def)

lemma split_not_Nil: "split sep s \<noteq> []"
  by (induction s) (auto split: list.splits)

lemma split_Cons_other:
  "c \<noteq> sep \<Longrightarrow> split sep (c # cs) = (c # hd (split sep cs)) # tl (split sep cs)"
  using split_not_Nil[of sep cs] by (cases "split sep cs") auto

lemma length_split: "length (split sep s) = Suc (count_list s sep)"
  by (induction s) (auto split: list.splits)

lemma split_hd_prefix: "prefix (hd (split sep s)) s"
  by (induction s) (auto split: list.splits)

lemma split_sublist: "t \<in> set (split sep s) \<Longrightarrow> sublist t s"
proof (induction s arbitrary: t)
  case Nil then show ?case by simp
next
  case (Cons c cs)
  show ?case
  proof (cases "c = sep")
    case True
    with Cons show ?thesis by (auto simp: sublist_Cons_right)
  next
    case False
    with Cons.prems have "t = c # hd (split sep cs) \<or> t \<in> set (tl (split sep cs))"
      by (simp add: split_Cons_other del: split.simps)
    then show ?thesis
    proof
      assume "t = c # hd (split sep cs)"
      then have "prefix t (c # cs)" by (simp add: split_hd_prefix)
      then show ?thesis by (rule prefix_imp_sublist)
    next
      assume "t \<in> set (tl (split sep cs))"
      then have "t \<in> set (split sep cs)" by (rule list.set_sel(2)[OF split_not_Nil])
      then show ?thesis using Cons.IH by (simp add: sublist_Cons_right)
    qed
  qed
qed

text \<open>Joining the tokens with the separator gives the text back.\<close>

lemma split_join: "concat (map (\<lambda>t. sep # t) (split sep s)) = sep # s"
proof (induction s)
  case Nil then show ?case by simp
next
  case (Cons c cs)
  then show ?case by (cases "split sep cs") (auto simp: split_not_Nil)
qed

section \<open>Facts about the polling loop\<close>

lemma perform_quiet:
  "quiet sys \<Longrightarrow> perform sys e w = (None, w\<lparr>trace := trace w @ [e]\<rparr>)"
  by (simp add: perform_def quiet_def)

lemma perform_all_quiet:
  "quiet sys \<Longrightarrow> perform_all sys es w = (None, w\<lparr>trace := trace w @ es\<rparr>)"
  by (induction es arbitrary: w) (simp_all add: perform_quiet)

lemma polls_Suc: "polls h p sd (Suc k) = stay_round h p sd @ polls h p sd k"
  by (simp add: polls_def)

text \<open>One pass through the loop in a quiet world.\<close>

lemma attempt_stays:
  assumes "quiet sys" and "stays sd (net (clock w) h p)"
  shows "attempt net sys h p sd w =
           Again \<lparr>clock = Suc (clock w), trace = trace w @ stay_round h p sd\<rparr>"
proof (cases sd)
  case True
  with assms show ?thesis
    by (simp add: attempt_def create_connection_def stays_def stay_round_def
          perform_all_quiet perform_quiet del: perform_all.simps)
next
  case False
  with assms obtain x where "net (clock w) h p = Raised x" and "is_OSError x"
    by (cases "net (clock w) h p") (auto simp: stays_def)
  with False assms(1) show ?thesis
    by (simp add: attempt_def create_connection_def stay_round_def leave_try_def handler_def
          perform_all_quiet del: perform_all.simps)
qed

lemma attempt_leaves:
  assumes "quiet sys" and "\<not> stays sd (net (clock w) h p)"
  shows "attempt net sys h p sd w =
           Done (ending (net (clock w) h p))
             \<lparr>clock = Suc (clock w), trace = trace w @ last_round h p (net (clock w) h p)\<rparr>"
proof (cases "net (clock w) h p")
  case Connected
  with assms have "\<not> sd" by (cases sd) (auto simp: stays_def)
  with Connected assms(1) show ?thesis
    by (simp add: attempt_def create_connection_def perform_quiet)
next
  case (Raised x)
  show ?thesis
  proof (cases "is_OSError x")
    case True
    with Raised assms(2) have sd by (cases sd) (auto simp: stays_def)
    with Raised True show ?thesis
      by (simp add: attempt_def create_connection_def leave_try_def handler_def)
  next
    case False
    with Raised show ?thesis
      by (simp add: attempt_def create_connection_def leave_try_def)
  qed
qed

lemma wait_again:
  "attempt net sys h p sd w = Again w' \<Longrightarrow>
     wait_for_port net sys h p sd w = wait_for_port net sys h p sd w'"
  by (subst wait_for_port.simps) simp

lemma wait_done:
  "attempt net sys h p sd w = Done r w' \<Longrightarrow> wait_for_port net sys h p sd w = Some (r, w')"
  by (subst wait_for_port.simps) simp

lemma wait_returns:
  assumes "quiet sys"
    and "\<forall>i<k. stays sd (net (clock w + i) h p)"
    and "\<not> stays sd (net (clock w + k) h p)"
  shows "wait_for_port net sys h p sd w =
           Some (ending (net (clock w + k) h p),
                 \<lparr>clock = clock w + k + 1,
                  trace = trace w @ polls h p sd k @ last_round h p (net (clock w + k) h p)\<rparr>)"
  using assms(2,3)
proof (induction k arbitrary: w)
  case 0
  then have "\<not> stays sd (net (clock w) h p)" by simp
  from attempt_leaves[of sys sd net w h p, OF assms(1) this] show ?case
    by (simp add: wait_done polls_def)
next
  case (Suc k)
  let ?w = "\<lparr>clock = Suc (clock w), trace = trace w @ stay_round h p sd\<rparr>"
  from Suc.prems(1) have "stays sd (net (clock w + 0) h p)" by blast
  then have c0: "stays sd (net (clock w) h p)" by simp
  have a: "\<forall>i<k. stays sd (net (clock ?w + i) h p)"
    using Suc.prems(1) by auto
  have b: "\<not> stays sd (net (clock ?w + k) h p)"
    using Suc.prems(2) by simp
  have "wait_for_port net sys h p sd w = wait_for_port net sys h p sd ?w"
    using attempt_stays[of sys sd net w h p, OF assms(1) c0] by (rule wait_again)
  also have "\<dots> = Some (ending (net (clock ?w + k) h p),
                 \<lparr>clock = clock ?w + k + 1,
                  trace = trace ?w @ polls h p sd k @ last_round h p (net (clock ?w + k) h p)\<rparr>)"
    using a b by (rule Suc.IH)
  finally show ?case by (simp add: polls_Suc)
qed

lemma wait_Some_exit_aux:
  assumes "wait_for_port net sys h p sd w = Some rw"
  shows "quiet sys \<longrightarrow> (\<exists>k. \<not> stays sd (net (clock w + k) h p))"
proof (rule wait_for_port.raw_induct
    [where P = "\<lambda>net sys h p sd w rw. quiet sys \<longrightarrow> (\<exists>k. \<not> stays sd (net (clock w + k) h p))",
     OF _ assms])
  fix wfp :: "net \<Rightarrow> sys \<Rightarrow> string \<Rightarrow> int \<Rightarrow> bool \<Rightarrow> world \<Rightarrow> (error option \<times> world) option"
  fix net sys h p sd w rw
  assume IH: "\<And>net sys h p sd w rw. wfp net sys h p sd w = Some rw \<Longrightarrow>
                quiet sys \<longrightarrow> (\<exists>k. \<not> stays sd (net (clock w + k) h p))"
    and step: "(case attempt net sys h p sd w of
                  Again w' \<Rightarrow> wfp net sys h p sd w'
                | Done r w' \<Rightarrow> Some (r, w')) = Some rw"
  show "quiet sys \<longrightarrow> (\<exists>k. \<not> stays sd (net (clock w + k) h p))"
  proof
    assume q: "quiet sys"
    show "\<exists>k. \<not> stays sd (net (clock w + k) h p)"
    proof (cases "stays sd (net (clock w) h p)")
      case False
      then have "\<not> stays sd (net (clock w + 0) h p)" by simp
      then show ?thesis by blast
    next
      case True
      let ?w = "\<lparr>clock = Suc (clock w), trace = trace w @ stay_round h p sd\<rparr>"
      from attempt_stays[of sys sd net w h p, OF q True] step have "wfp net sys h p sd ?w = Some rw" by simp
      from IH[OF this] q obtain k where "\<not> stays sd (net (Suc (clock w) + k) h p)"
        by auto
      then have "\<not> stays sd (net (clock w + Suc k) h p)" by simp
      then show ?thesis by blast
    qed
  qed
qed

lemma wait_Some_exit:
  assumes "wait_for_port net sys h p sd w = Some rw" and "quiet sys"
  shows "\<exists>k. \<not> stays sd (net (clock w + k) h p)"
  using wait_Some_exit_aux[OF assms(1)] assms(2) by blast

lemma wait_never:
  assumes "quiet sys" and "\<forall>i. stays sd (net (clock w + i) h p)"
  shows "wait_for_port net sys h p sd w = None"
proof (cases "wait_for_port net sys h p sd w")
  case None then show ?thesis .
next
  case (Some rw)
  from wait_Some_exit[OF this assms(1)] assms(2) show ?thesis by blast
qed

lemma wait_Some_shape:
  assumes "wait_for_port net sys h p sd w = Some rw" and "quiet sys"
  shows "\<exists>k. (\<forall>i<k. stays sd (net (clock w + i) h p)) \<and> \<not> stays sd (net (clock w + k) h p)
            \<and> rw = (ending (net (clock w + k) h p),
                 \<lparr>clock = clock w + k + 1,
                  trace = trace w @ polls h p sd k @ last_round h p (net (clock w + k) h p)\<rparr>)"
proof -
  let ?L = "\<lambda>k. \<not> stays sd (net (clock w + k) h p)"
  from wait_Some_exit[OF assms] obtain k0 where "?L k0" ..
  define k where "k = (LEAST k. ?L k)"
  have Lk: "?L k" unfolding k_def using \<open>?L k0\<close> by (rule LeastI)
  have before: "\<forall>i<k. stays sd (net (clock w + i) h p)"
    unfolding k_def using not_less_Least by blast
  from wait_returns[of sys k sd net w h p, OF assms(2) before Lk] assms(1)
  have "rw = (ending (net (clock w + k) h p),
                 \<lparr>clock = clock w + k + 1,
                  trace = trace w @ polls h p sd k @ last_round h p (net (clock w + k) h p)\<rparr>)"
    by simp
  with Lk before show ?thesis by blast
qed


lemma stays_True: "stays True r \<longleftrightarrow> r = Connected"
  by (simp add: stays_def)



text \<open>A pass whose body raises an \<^verbatim>\<open>OSError\<close> after the attempt has connected.\<close>

lemma attempt_body_raises:
  assumes "net (clock w) h p = Connected"
    and "perform_all sys [Sleep 1000, Write ''.'', Flush] (snd (create_connection net h p w))
           = (Some (OSError e), w2)"
    and "perform sys (Close h p) w2 = (None, w3)"
  shows "attempt net sys h p True w = Done None w3"
  using assms
  by (simp add: attempt_def create_connection_def leave_try_def handler_def
        del: perform_all.simps)


text \<open>A pass with \<^verbatim>\<open>shutdown=True\<close> whose attempt connects and whose body and closing return.\<close>

lemma attempt_down_connected:
  assumes "net (clock w) h p = Connected"
    and "sys (length (trace w) + 1) (Sleep 1000) = None"
    and "sys (length (trace w) + 2) (Write ''.'') = None"
    and "sys (length (trace w) + 3) Flush = None"
    and "sys (length (trace w) + 4) (Close h p) = None"
  shows "attempt net sys h p True w =
           Again \<lparr>clock = Suc (clock w), trace = trace w @ stay_round h p True\<rparr>"
  using assms
  by (simp add: attempt_def create_connection_def perform_def stay_round_def eval_nat_numeral)

lemma attempt_down_os_failure:
  assumes "net (clock w) h p = Raised (OSError e)"
  shows "attempt net sys h p True w =
           Done None \<lparr>clock = Suc (clock w), trace = trace w @ [Connect h p]\<rparr>"
  using assms by (simp add: attempt_def create_connection_def leave_try_def handler_def)

section \<open>Readiness polling\<close>

text \<open>
  Claim C3, as amended. With \<^verbatim>\<open>shutdown=True\<close>, in a world where the sleep, the dot
  and the closing of the socket do not raise, the loop leaves on the first attempt
  that raises, and not before: when the first \<open>k\<close> attempts connect and the next
  one raises, it leaves after \<open>k + 1\<close> attempts, having slept a second and written
  a dot after each of the \<open>k\<close>. It returns when the exception is an \<^verbatim>\<open>OSError\<close>,
  whichever (a refused connection, a timeout, a failed name resolution), and lets any
  other exception through to the caller. When every attempt connects it never
  leaves. An \<^verbatim>\<open>OSError\<close> raised by the sleep, the dot or the flush after an attempt
  that connected is caught like that of an attempt, and the loop returns.
\<close>

theorem wait_for_down_first_failure:
  "(quiet sys \<and> (\<forall>i<k. net (clock w + i) h p = Connected) \<and> net (clock w + k) h p = Raised x \<longrightarrow>
      wait_for_port net sys h p True w =
        Some (if is_OSError x then None else Some x,
              \<lparr>clock = clock w + k + 1, trace = trace w @ polls h p True k @ [Connect h p]\<rparr>))
   \<and> (quiet sys \<and> (\<forall>i. net (clock w + i) h p = Connected) \<longrightarrow>
        wait_for_port net sys h p True w = None)
   \<and> (net (clock w) h p = Connected
        \<and> perform_all sys [Sleep 1000, Write ''.'', Flush] (snd (create_connection net h p w))
            = (Some (OSError e), w2)
        \<and> perform sys (Close h p) w2 = (None, w3) \<longrightarrow>
        wait_for_port net sys h p True w = Some (None, w3))"
proof (intro conjI impI)
  assume a: "quiet sys \<and> (\<forall>i<k. net (clock w + i) h p = Connected)
               \<and> net (clock w + k) h p = Raised x"
  then have q: "quiet sys"
    and s: "\<forall>i<k. stays True (net (clock w + i) h p)"
    and l: "\<not> stays True (net (clock w + k) h p)"
    by (simp_all add: stays_True)
  from wait_returns[of sys k True net w h p, OF q s l] a
  show "wait_for_port net sys h p True w =
        Some (if is_OSError x then None else Some x,
              \<lparr>clock = clock w + k + 1, trace = trace w @ polls h p True k @ [Connect h p]\<rparr>)"
    by simp
next
  assume "quiet sys \<and> (\<forall>i. net (clock w + i) h p = Connected)"
  then have "quiet sys" and "\<forall>i. stays True (net (clock w + i) h p)"
    by (simp_all add: stays_True)
  then show "wait_for_port net sys h p True w = None" by (rule wait_never)
next
  assume "net (clock w) h p = Connected
        \<and> perform_all sys [Sleep 1000, Write ''.'', Flush] (snd (create_connection net h p w))
            = (Some (OSError e), w2)
        \<and> perform sys (Close h p) w2 = (None, w3)"
  then have "attempt net sys h p True w = Done None w3"
    using attempt_body_raises[of net w h p sys e w2 w3] by blast
  then show "wait_for_port net sys h p True w = Some (None, w3)" by (rule wait_done)
qed

theorem wait_for_down_first_failure_witness:
  "wait_for_port (scripted [Connected, Connected] (Raised (OSError NameResolution))) sys_ok
       ''build01.nix-community.org'' 22 True start =
     Some (None,
           \<lparr>clock = 3,
            trace = polls ''build01.nix-community.org'' 22 True 2
                    @ [Connect ''build01.nix-community.org'' 22]\<rparr>)
   \<and> wait_for_port (scripted [] Connected) sys_ok ''build01.nix-community.org'' 22 True start = None
   \<and> wait_for_port (scripted [] Connected) stdout_gone ''build01.nix-community.org'' 22 True start =
       Some (None, \<lparr>clock = 1,
                    trace = [Connect ''build01.nix-community.org'' 22, Sleep 1000, Write ''.'',
                             Close ''build01.nix-community.org'' 22]\<rparr>)"
proof -
  let ?h = "''build01.nix-community.org''"
  let ?net = "scripted [Connected, Connected] (Raised (OSError NameResolution))"
  let ?up = "scripted [] Connected"
  let ?w2 = "\<lparr>clock = 1, trace = [Connect ?h 22, Sleep 1000, Write ''.'']\<rparr>"
  let ?w3 = "\<lparr>clock = 1, trace = [Connect ?h 22, Sleep 1000, Write ''.'', Close ?h 22]\<rparr>"
  have q: "quiet sys_ok" by (simp add: quiet_def sys_ok_def)
  have a: "(\<forall>i<2. ?net (clock start + i) ?h 22 = Connected)
           \<and> ?net (clock start + 2) ?h 22 = Raised (OSError NameResolution)"
    by (simp add: scripted_def start_def nth_Cons')
  have b: "\<forall>i. ?up (clock start + i) ?h 22 = Connected"
    by (simp add: scripted_def)
  have c: "?up (clock start) ?h 22 = Connected
        \<and> perform_all stdout_gone [Sleep 1000, Write ''.'', Flush]
             (snd (create_connection ?up ?h 22 start)) = (Some (OSError BrokenPipe), ?w2)
        \<and> perform stdout_gone (Close ?h 22) ?w2 = (None, ?w3)"
    by (simp add: scripted_def start_def create_connection_def perform_def stdout_gone_def)
  from wait_for_down_first_failure
         [of sys_ok 2 ?net start ?h 22 "OSError NameResolution"] q a
  have 1: "wait_for_port ?net sys_ok ?h 22 True start =
     Some (None, \<lparr>clock = 3, trace = polls ?h 22 True 2 @ [Connect ?h 22]\<rparr>)"
    by (simp add: start_def)
  from wait_for_down_first_failure [of sys_ok _ ?up start ?h 22] q b
  have 2: "wait_for_port ?up sys_ok ?h 22 True start = None"
    by blast
  from wait_for_down_first_failure
         [where sys = stdout_gone and net = ?up and w = start and h = ?h and p = 22
            and e = BrokenPipe and ?w2.0 = ?w2 and ?w3.0 = ?w3] c
  have 3: "wait_for_port ?up stdout_gone ?h 22 True start = Some (None, ?w3)"
    by blast
  from 1 2 3 show ?thesis by (intro conjI)
qed

text \<open>
  Claim C3 as stated fails twice. On a network where every attempt connects, the
  loop returns as soon as the dot cannot be written to a standard output whose reader
  has gone: it returns before any attempt has failed. And an attempt that raises an
  exception that is not an \<^verbatim>\<open>OSError\<close>, as the \<^verbatim>\<open>UnicodeError\<close> for the address
  \<^verbatim>\<open>.nix-community.org\<close>, is not taken for a failed connection: the call ends with
  the exception.
\<close>

theorem wait_for_down_first_failure_counterexample:
  "wait_for_port (scripted [] Connected) stdout_gone ''build01.nix-community.org'' 22 True start =
     Some (None, \<lparr>clock = 1,
                  trace = [Connect ''build01.nix-community.org'' 22, Sleep 1000, Write ''.'',
                           Close ''build01.nix-community.org'' 22]\<rparr>)
   \<and> wait_for_port (scripted [] (Raised UnicodeError)) sys_ok ''.nix-community.org'' 22 True start =
     Some (Some UnicodeError, \<lparr>clock = 1, trace = [Connect ''.nix-community.org'' 22]\<rparr>)"
proof
  have "attempt (scripted [] Connected) stdout_gone ''build01.nix-community.org'' 22 True start =
          Done None \<lparr>clock = 1,
                  trace = [Connect ''build01.nix-community.org'' 22, Sleep 1000, Write ''.'',
                           Close ''build01.nix-community.org'' 22]\<rparr>"
    by (simp add: attempt_def create_connection_def perform_def scripted_def stdout_gone_def
          start_def leave_try_def handler_def)
  then show "wait_for_port (scripted [] Connected) stdout_gone ''build01.nix-community.org'' 22
               True start =
     Some (None, \<lparr>clock = 1,
                  trace = [Connect ''build01.nix-community.org'' 22, Sleep 1000, Write ''.'',
                           Close ''build01.nix-community.org'' 22]\<rparr>)"
    by (rule wait_done)
next
  have "attempt (scripted [] (Raised UnicodeError)) sys_ok ''.nix-community.org'' 22 True start =
          Done (Some UnicodeError) \<lparr>clock = 1, trace = [Connect ''.nix-community.org'' 22]\<rparr>"
    by (simp add: attempt_def create_connection_def scripted_def start_def leave_try_def)
  then show "wait_for_port (scripted [] (Raised UnicodeError)) sys_ok ''.nix-community.org'' 22
               True start =
     Some (Some UnicodeError, \<lparr>clock = 1, trace = [Connect ''.nix-community.org'' 22]\<rparr>)"
    by (rule wait_done)
qed




text \<open>
  Claim C6 as stated fails: with \<^verbatim>\<open>shutdown=True\<close> an attempt that fails writes
  nothing and is the last one.
\<close>

theorem wait_for_down_failed_attempt_counterexample:
  "wait_for_port (scripted [] (Raised (OSError ConnectionRefused))) sys_ok
       ''build01.nix-community.org'' 22 True start
     = Some (None, \<lparr>clock = 1, trace = [Connect ''build01.nix-community.org'' 22]\<rparr>)"
proof -
  have "attempt (scripted [] (Raised (OSError ConnectionRefused))) sys_ok
          ''build01.nix-community.org'' 22 True start
        = Done None \<lparr>clock = 1, trace = [Connect ''build01.nix-community.org'' 22]\<rparr>"
    by (simp add: attempt_down_os_failure[where e = ConnectionRefused] scripted_def start_def)
  then show ?thesis by (rule wait_done)
qed

text \<open>
  Claim C6, as amended. With \<^verbatim>\<open>shutdown=True\<close> an attempt that connects is followed
  by a sleep of a second, a dot, the closing of the socket and, none of these
  raising, another attempt; an attempt that fails with an \<^verbatim>\<open>OSError\<close> writes nothing
  and ends the loop. So in a world where these calls do not raise, when the loop has
  left, the dots written are one for each attempt that connected, and the attempt
  that raised comes last.
\<close>

theorem wait_for_down_dot_per_success:
  "(net (clock w) h p = Connected
      \<and> sys (length (trace w) + 1) (Sleep 1000) = None
      \<and> sys (length (trace w) + 2) (Write ''.'') = None
      \<and> sys (length (trace w) + 3) Flush = None
      \<and> sys (length (trace w) + 4) (Close h p) = None \<longrightarrow>
      wait_for_port net sys h p True w =
        wait_for_port net sys h p True
          \<lparr>clock = Suc (clock w),
           trace = trace w @ [Connect h p, Sleep 1000, Write ''.'', Flush, Close h p]\<rparr>)
   \<and> (net (clock w) h p = Raised (OSError e) \<longrightarrow>
        wait_for_port net sys h p True w =
          Some (None, \<lparr>clock = Suc (clock w), trace = trace w @ [Connect h p]\<rparr>))
   \<and> (quiet sys \<and> wait_for_port net sys h p True w = Some (r, w') \<longrightarrow>
        (\<exists>k. (\<forall>i<k. net (clock w + i) h p = Connected)
            \<and> net (clock w + k) h p \<noteq> Connected
            \<and> r = ending (net (clock w + k) h p)
            \<and> w' = \<lparr>clock = clock w + k + 1,
                     trace = trace w @ polls h p True k @ [Connect h p]\<rparr>))"
proof (intro conjI impI)
  assume "net (clock w) h p = Connected
      \<and> sys (length (trace w) + 1) (Sleep 1000) = None
      \<and> sys (length (trace w) + 2) (Write ''.'') = None
      \<and> sys (length (trace w) + 3) Flush = None
      \<and> sys (length (trace w) + 4) (Close h p) = None"
  then have "attempt net sys h p True w =
           Again \<lparr>clock = Suc (clock w), trace = trace w @ stay_round h p True\<rparr>"
    using attempt_down_connected[of net w h p sys] by blast
  then have "wait_for_port net sys h p True w =
        wait_for_port net sys h p True
          \<lparr>clock = Suc (clock w), trace = trace w @ stay_round h p True\<rparr>"
    by (rule wait_again)
  then show "wait_for_port net sys h p True w =
        wait_for_port net sys h p True
          \<lparr>clock = Suc (clock w),
           trace = trace w @ [Connect h p, Sleep 1000, Write ''.'', Flush, Close h p]\<rparr>"
    by (simp add: stay_round_def)
next
  assume "net (clock w) h p = Raised (OSError e)"
  then have "attempt net sys h p True w =
           Done None \<lparr>clock = Suc (clock w), trace = trace w @ [Connect h p]\<rparr>"
    by (rule attempt_down_os_failure)
  then show "wait_for_port net sys h p True w =
          Some (None, \<lparr>clock = Suc (clock w), trace = trace w @ [Connect h p]\<rparr>)"
    by (rule wait_done)
next
  assume a: "quiet sys \<and> wait_for_port net sys h p True w = Some (r, w')"
  then have q: "quiet sys" and s: "wait_for_port net sys h p True w = Some (r, w')"
    by simp_all
  from wait_Some_shape[OF s q] obtain k where
    k: "\<forall>i<k. stays True (net (clock w + i) h p)" "\<not> stays True (net (clock w + k) h p)"
      "(r, w') = (ending (net (clock w + k) h p),
                 \<lparr>clock = clock w + k + 1,
                  trace = trace w @ polls h p True k @ last_round h p (net (clock w + k) h p)\<rparr>)"
    by blast
  from k(2) obtain x where x: "net (clock w + k) h p = Raised x"
    by (cases "net (clock w + k) h p") (auto simp: stays_True)
  from k x have "(\<forall>i<k. net (clock w + i) h p = Connected)
            \<and> net (clock w + k) h p \<noteq> Connected
            \<and> r = ending (net (clock w + k) h p)
            \<and> w' = \<lparr>clock = clock w + k + 1,
                     trace = trace w @ polls h p True k @ [Connect h p]\<rparr>"
    by (simp add: stays_True)
  then show "\<exists>k. (\<forall>i<k. net (clock w + i) h p = Connected)
            \<and> net (clock w + k) h p \<noteq> Connected
            \<and> r = ending (net (clock w + k) h p)
            \<and> w' = \<lparr>clock = clock w + k + 1,
                     trace = trace w @ polls h p True k @ [Connect h p]\<rparr>"
    by blast
qed

theorem wait_for_down_dot_per_success_witness:
  "wait_for_port (scripted [Connected] (Raised (OSError TimedOut))) sys_ok
       ''build01.nix-community.org'' 22 True start
     = wait_for_port (scripted [Connected] (Raised (OSError TimedOut))) sys_ok
         ''build01.nix-community.org'' 22 True
         \<lparr>clock = 1,
          trace = [Connect ''build01.nix-community.org'' 22, Sleep 1000, Write ''.'', Flush,
                   Close ''build01.nix-community.org'' 22]\<rparr>
   \<and> wait_for_port (scripted [Connected] (Raised (OSError TimedOut))) sys_ok
         ''build01.nix-community.org'' 22 True
         \<lparr>clock = 1,
          trace = [Connect ''build01.nix-community.org'' 22, Sleep 1000, Write ''.'', Flush,
                   Close ''build01.nix-community.org'' 22]\<rparr>
       = Some (None,
               \<lparr>clock = 2,
                trace = [Connect ''build01.nix-community.org'' 22, Sleep 1000, Write ''.'', Flush,
                         Close ''build01.nix-community.org'' 22,
                         Connect ''build01.nix-community.org'' 22]\<rparr>)
   \<and> (\<exists>k. (\<forall>i<k. scripted [Connected] (Raised (OSError TimedOut)) (clock start + i)
                      ''build01.nix-community.org'' 22 = Connected)
          \<and> scripted [Connected] (Raised (OSError TimedOut)) (clock start + k)
               ''build01.nix-community.org'' 22 \<noteq> Connected
          \<and> \<lparr>clock = 2,
              trace = [Connect ''build01.nix-community.org'' 22, Sleep 1000, Write ''.'', Flush,
                       Close ''build01.nix-community.org'' 22,
                       Connect ''build01.nix-community.org'' 22]\<rparr>
              = \<lparr>clock = clock start + k + 1,
                 trace = trace start @ polls ''build01.nix-community.org'' 22 True k
                         @ [Connect ''build01.nix-community.org'' 22]\<rparr>)"
proof -
  let ?h = "''build01.nix-community.org''"
  let ?net = "scripted [Connected] (Raised (OSError TimedOut))"
  let ?w1 = "\<lparr>clock = 1, trace = [Connect ?h 22, Sleep 1000, Write ''.'', Flush, Close ?h 22]\<rparr>"
  let ?w2 = "\<lparr>clock = 2, trace = [Connect ?h 22, Sleep 1000, Write ''.'', Flush, Close ?h 22,
                                    Connect ?h 22]\<rparr>"
  have q: "quiet sys_ok" by (simp add: quiet_def sys_ok_def)
  have a: "?net (clock start) ?h 22 = Connected
      \<and> sys_ok (length (trace start) + 1) (Sleep 1000) = None
      \<and> sys_ok (length (trace start) + 2) (Write ''.'') = None
      \<and> sys_ok (length (trace start) + 3) Flush = None
      \<and> sys_ok (length (trace start) + 4) (Close ?h 22) = None"
    by (simp add: scripted_def start_def sys_ok_def)
  have b: "?net (clock ?w1) ?h 22 = Raised (OSError TimedOut)" by (simp add: scripted_def)
  have e1: "\<lparr>clock = Suc (clock start),
            trace = trace start @ [Connect ?h 22, Sleep 1000, Write ''.'', Flush, Close ?h 22]\<rparr>
            = ?w1"
    by (simp add: start_def)
  have e2: "\<lparr>clock = Suc (clock ?w1), trace = trace ?w1 @ [Connect ?h 22]\<rparr> = ?w2"
    by simp
  note T = wait_for_down_dot_per_success
  from T [where net = ?net and w = start and h = ?h and p = 22 and sys = sys_ok] a
  have "wait_for_port ?net sys_ok ?h 22 True start =
          wait_for_port ?net sys_ok ?h 22 True
            \<lparr>clock = Suc (clock start),
             trace = trace start @ [Connect ?h 22, Sleep 1000, Write ''.'', Flush, Close ?h 22]\<rparr>"
    by blast
  then have s1: "wait_for_port ?net sys_ok ?h 22 True start = wait_for_port ?net sys_ok ?h 22 True ?w1"
    by (simp only: e1)
  from T [where net = ?net and w = ?w1 and h = ?h and p = 22 and sys = sys_ok and e = TimedOut] b
  have "wait_for_port ?net sys_ok ?h 22 True ?w1 =
          Some (None, \<lparr>clock = Suc (clock ?w1), trace = trace ?w1 @ [Connect ?h 22]\<rparr>)"
    by blast
  then have s2: "wait_for_port ?net sys_ok ?h 22 True ?w1 = Some (None, ?w2)"
    by (simp only: e2)
  from s1 s2 have s3: "wait_for_port ?net sys_ok ?h 22 True start = Some (None, ?w2)" by (rule trans)
  from T [where net = ?net and w = start and h = ?h and p = 22 and sys = sys_ok
            and r = None and w' = ?w2] q s3
  have s4: "\<exists>k. (\<forall>i<k. ?net (clock start + i) ?h 22 = Connected)
          \<and> ?net (clock start + k) ?h 22 \<noteq> Connected
          \<and> ?w2 = \<lparr>clock = clock start + k + 1,
                 trace = trace start @ polls ?h 22 True k @ [Connect ?h 22]\<rparr>"
    by blast
  from s1 s2 s4 show ?thesis by (intro conjI)
qed

section \<open>Host selection\<close>

lemma get_hosts_nonempty:
  assumes "hosts \<noteq> []"
  shows "get_hosts inventory hosts =
           Inr (if hosts = ''darwin01''
                then [\<lparr>host = ''darwin01'' @ domain, user = Some ''customer'', port = None\<rparr>]
                else map (\<lambda>t. \<lparr>host = t @ domain,
                                 user = (if contains darwin hosts then Some ''hetzner'' else None),
                                 port = None\<rparr>) (split (CHR '','') hosts))"
  using assms by (simp add: get_hosts_def domain_def darwin_def)

lemma split_darwin01: "split (CHR '','') ''darwin01'' = [''darwin01'']"
  by simp

text \<open>
  Claim C7. For every non-empty host spec, \<^verbatim>\<open>get_hosts\<close> returns one host per
  comma-separated token, in the order of the tokens: as many hosts as the spec has
  commas plus one, the address of each being its token followed by
  \<^verbatim>\<open>.nix-community.org\<close>. The inventory plays no part.
\<close>

theorem get_hosts_one_host_per_token:
  assumes "hosts \<noteq> []"
  shows "\<exists>hs. get_hosts inventory hosts = Inr hs
           \<and> length hs = length (split (CHR '','') hosts)
           \<and> length hs = Suc (count_list hosts (CHR '',''))
           \<and> map host hs = map (\<lambda>t. t @ domain) (split (CHR '','') hosts)"
proof (cases "hosts = ''darwin01''")
  case True
  then show ?thesis by (simp add: get_hosts_def domain_def darwin_def)
next
  case False
  with assms show ?thesis
    by (simp add: get_hosts_nonempty length_split comp_def)
qed

theorem get_hosts_one_host_per_token_witness:
  "get_hosts (Inl CalledProcessError) ''build01,build02'' =
     Inr [\<lparr>host = ''build01.nix-community.org'', user = None, port = None\<rparr>,
          \<lparr>host = ''build02.nix-community.org'', user = None, port = None\<rparr>]
   \<and> (\<exists>hs. get_hosts (Inl CalledProcessError) ''build01,build02'' = Inr hs
           \<and> length hs = length (split (CHR '','') ''build01,build02'')
           \<and> length hs = Suc (count_list ''build01,build02'' (CHR '',''))
           \<and> map host hs = map (\<lambda>t. t @ domain) (split (CHR '','') ''build01,build02''))"
  using get_hosts_one_host_per_token [of "''build01,build02''" "Inl CalledProcessError"]
  by (simp add: get_hosts_def domain_def darwin_def)

lemma token_darwin_spec:
  assumes "t \<in> set (split (CHR '','') hosts)" and "contains darwin t"
  shows "contains darwin hosts"
proof -
  from assms(1) have "sublist t hosts" by (rule split_sublist)
  moreover from assms(2) have "sublist darwin t" by (simp add: contains_sublist)
  ultimately have "sublist darwin hosts" by (rule sublist_order.order_trans[rotated])
  then show ?thesis by (simp add: contains_sublist)
qed

text \<open>
  Claim C8, as amended. The host of a token that contains \<^verbatim>\<open>darwin\<close> is built with
  the user \<^verbatim>\<open>hetzner\<close>, unless the whole spec is exactly \<^verbatim>\<open>darwin01\<close>, in which
  case the single host is built with the user \<^verbatim>\<open>customer\<close>.
\<close>

theorem get_hosts_darwin_token_identity:
  assumes "i < length (split (CHR '','') hosts)"
    and "contains darwin (split (CHR '','') hosts ! i)"
  shows "\<exists>hs. get_hosts inventory hosts = Inr hs \<and> length hs = length (split (CHR '','') hosts)
           \<and> host (hs ! i) = split (CHR '','') hosts ! i @ domain
           \<and> user (hs ! i) = Some (if hosts = ''darwin01'' then ''customer'' else ''hetzner'')"
proof -
  from assms have d: "contains darwin hosts"
    using token_darwin_spec nth_mem by blast
  then have ne: "hosts \<noteq> []" by (auto simp: darwin_def)
  show ?thesis
  proof (cases "hosts = ''darwin01''")
    case True
    with assms(1) show ?thesis by (simp add: get_hosts_def domain_def darwin_def)
  next
    case False
    with assms(1) d ne show ?thesis by (simp add: get_hosts_nonempty)
  qed
qed

theorem get_hosts_darwin_token_identity_witness:
  "(1::nat) < length (split (CHR '','') ''build01,darwin02'')
   \<and> contains darwin (split (CHR '','') ''build01,darwin02'' ! 1)
   \<and> (\<exists>hs. get_hosts (Inr []) ''build01,darwin02'' = Inr hs
         \<and> length hs = length (split (CHR '','') ''build01,darwin02'')
         \<and> host (hs ! 1) = split (CHR '','') ''build01,darwin02'' ! 1 @ domain
         \<and> user (hs ! 1) = Some (if ''build01,darwin02'' = ''darwin01'' then ''customer'' else ''hetzner''))"
proof -
  have a: "(1::nat) < length (split (CHR '','') ''build01,darwin02'')" by simp
  have b: "contains darwin (split (CHR '','') ''build01,darwin02'' ! 1)" by (simp add: darwin_def)
  from get_hosts_darwin_token_identity [OF a b, of "Inr []"] a b show ?thesis by blast
qed

text \<open>
  Claim C8 as stated fails: in the spec \<^verbatim>\<open>darwin01,build01\<close> the token
  \<^verbatim>\<open>darwin01\<close> is built with the user \<^verbatim>\<open>hetzner\<close>, not \<^verbatim>\<open>customer\<close>.
\<close>

theorem get_hosts_darwin01_in_list_counterexample:
  "get_hosts (Inr []) ''darwin01,build01'' =
     Inr [\<lparr>host = ''darwin01.nix-community.org'', user = Some ''hetzner'', port = None\<rparr>,
          \<lparr>host = ''build01.nix-community.org'', user = Some ''hetzner'', port = None\<rparr>]"
  by (simp add: get_hosts_def domain_def darwin_def)

text \<open>
  Claim C9. The choice of the user is made on the whole spec. A spec that contains
  \<^verbatim>\<open>darwin\<close> anywhere and is not exactly \<^verbatim>\<open>darwin01\<close> gives every host of the list
  the user \<^verbatim>\<open>hetzner\<close>, also the hosts whose token has no \<^verbatim>\<open>darwin\<close> in it; and
  some host of the result has the user \<^verbatim>\<open>customer\<close> exactly when the spec is
  \<^verbatim>\<open>darwin01\<close>.
\<close>

theorem get_hosts_whole_spec_decision:
  "(contains darwin hosts \<and> hosts \<noteq> ''darwin01'' \<longrightarrow>
      get_hosts inventory hosts =
        Inr (map (\<lambda>t. \<lparr>host = t @ domain, user = Some ''hetzner'', port = None\<rparr>)
               (split (CHR '','') hosts)))
   \<and> (\<forall>hs. get_hosts inventory hosts = Inr hs \<longrightarrow>
         ((\<exists>h \<in> set hs. user h = Some ''customer'') \<longleftrightarrow> hosts = ''darwin01''))"
proof (intro conjI impI allI)
  assume "contains darwin hosts \<and> hosts \<noteq> ''darwin01''"
  moreover from this have "hosts \<noteq> []" by (auto simp: darwin_def)
  ultimately show "get_hosts inventory hosts =
        Inr (map (\<lambda>t. \<lparr>host = t @ domain, user = Some ''hetzner'', port = None\<rparr>)
               (split (CHR '','') hosts))"
    by (simp add: get_hosts_nonempty)
next
  fix hs assume hs: "get_hosts inventory hosts = Inr hs"
  show "(\<exists>h \<in> set hs. user h = Some ''customer'') \<longleftrightarrow> hosts = ''darwin01''"
  proof (cases "hosts = []")
    case True
    with hs show ?thesis by (auto simp: get_hosts_def split: sum.splits)
  next
    case False
    from hs get_hosts_nonempty[OF False, of inventory] show ?thesis
      by (auto split: if_splits)
  qed
qed

theorem get_hosts_whole_spec_decision_witness:
  "contains darwin ''build01,darwin01'' \<and> ''build01,darwin01'' \<noteq> ''darwin01''
   \<and> get_hosts (Inr []) ''build01,darwin01'' =
       Inr [\<lparr>host = ''build01.nix-community.org'', user = Some ''hetzner'', port = None\<rparr>,
            \<lparr>host = ''darwin01.nix-community.org'', user = Some ''hetzner'', port = None\<rparr>]
   \<and> get_hosts (Inr []) ''darwin01'' =
       Inr [\<lparr>host = ''darwin01.nix-community.org'', user = Some ''customer'', port = None\<rparr>]
   \<and> ((\<exists>h \<in> set [\<lparr>host = ''darwin01.nix-community.org'', user = Some ''customer'', port = None\<rparr>].
          user h = Some ''customer'') \<longleftrightarrow> ''darwin01'' = ''darwin01'')"
proof -
  have a: "contains darwin ''build01,darwin01'' \<and> ''build01,darwin01'' \<noteq> ''darwin01''"
    by (simp add: darwin_def)
  have b: "get_hosts (Inr []) ''darwin01'' =
       Inr [\<lparr>host = ''darwin01.nix-community.org'', user = Some ''customer'', port = None\<rparr>]"
    by (simp add: get_hosts_def darwin_def)
  from get_hosts_whole_spec_decision [of "''build01,darwin01''" "Inr []"] a
  have c: "get_hosts (Inr []) ''build01,darwin01'' =
       Inr [\<lparr>host = ''build01.nix-community.org'', user = Some ''hetzner'', port = None\<rparr>,
            \<lparr>host = ''darwin01.nix-community.org'', user = Some ''hetzner'', port = None\<rparr>]"
    by (simp add: domain_def darwin_def)
  from get_hosts_whole_spec_decision [of "''darwin01''" "Inr []"] b
  have d: "(\<exists>h \<in> set [\<lparr>host = ''darwin01.nix-community.org'', user = Some ''customer'', port = None\<rparr>].
          user h = Some ''customer'') \<longleftrightarrow> ''darwin01'' = ''darwin01''"
    by simp
  from a b c d show ?thesis by blast
qed

text \<open>
  Claim C10. With the empty spec every host is built from a declared name of the
  inventory with no user passed, also for a declared name that contains
  \<^verbatim>\<open>darwin\<close> or is \<^verbatim>\<open>darwin01\<close>; an exception of the inventory query is the result.
\<close>

theorem get_hosts_inventory_default_identity:
  "get_hosts (Inr names) [] =
     Inr (map (\<lambda>n. \<lparr>host = n @ domain, user = None, port = None\<rparr>) names)
   \<and> get_hosts (Inl e) [] = Inl e
   \<and> get_hosts (Inr [''darwin01'', ''build01'']) [] =
       Inr [\<lparr>host = ''darwin01.nix-community.org'', user = None, port = None\<rparr>,
            \<lparr>host = ''build01.nix-community.org'', user = None, port = None\<rparr>]"
  by (simp add: get_hosts_def domain_def)

section \<open>Facts about the reboot loop\<close>









section \<open>The reboot task\<close>





section \<open>The deploy unit\<close>

lemma command_and_target_darwin:
  "contains darwin (host h) \<Longrightarrow> user h = Some u \<Longrightarrow>
     command_and_target h = (''darwin-rebuild'', u @ ''@'' @ host h)"
  by (simp add: command_and_target_def)

lemma command_and_target_linux:
  "\<not> contains darwin (host h) \<Longrightarrow> command_and_target h = (''sudo nixos-rebuild'', host h)"
  by (simp add: command_and_target_def)

lemma deploy_archived:
  assumes "command_and_target h = (command, target)"
    and "run_local h [''nix'', ''flake'', ''archive'', ''--to'', ''ssh://'' @ target, ''--json'']
           = Inr path"
  shows "deploy run_local run h =
     ([RunLocal h [''nix'', ''flake'', ''archive'', ''--to'', ''ssh://'' @ target, ''--json''],
       Run h (command @ '' switch --option accept-flake-config true --flake ''
              @ path @ ''#'' @ replace domain [] (host h))],
      run h (command @ '' switch --option accept-flake-config true --flake ''
              @ path @ ''#'' @ replace domain [] (host h)))"
  using assms by (simp add: deploy_def Let_def)

lemma deploy_archive_fails:
  assumes "command_and_target h = (command, target)"
    and "run_local h [''nix'', ''flake'', ''archive'', ''--to'', ''ssh://'' @ target, ''--json'']
           = Inl e"
  shows "deploy run_local run h =
     ([RunLocal h [''nix'', ''flake'', ''archive'', ''--to'', ''ssh://'' @ target, ''--json'']],
      Some e)"
  using assms by (simp add: deploy_def Let_def)

text \<open>
  Claim C1, as amended. The deploy unit chooses its command and its target together,
  by the address of the host. When the address contains \<^verbatim>\<open>darwin\<close>, the command is
  \<^verbatim>\<open>darwin-rebuild\<close>, without \<^verbatim>\<open>sudo\<close>, and the target is \<^verbatim>\<open>user@address\<close>, for a host
  that has a login user; otherwise the command is \<^verbatim>\<open>sudo nixos-rebuild\<close> and the
  target is the address alone. The closure is archived to \<^verbatim>\<open>ssh://\<close> followed by the
  target, and the command, with \<^verbatim>\<open>switch\<close>, is run on the host. In both cases the
  flake attribute is the address with every occurrence of \<^verbatim>\<open>.nix-community.org\<close>
  deleted; for an address that is a name free of that text followed by it, this is
  the name, the address with the suffix stripped.
\<close>

theorem deploy_platform_dispatch:
  "(contains darwin (host h) \<and> user h = Some u \<longrightarrow>
      command_and_target h = (''darwin-rebuild'', u @ ''@'' @ host h))
   \<and> (\<not> contains darwin (host h) \<longrightarrow>
      command_and_target h = (''sudo nixos-rebuild'', host h))
   \<and> (command_and_target h = (command, target)
      \<and> run_local h [''nix'', ''flake'', ''archive'', ''--to'', ''ssh://'' @ target, ''--json'']
           = Inr path \<longrightarrow>
      deploy run_local run h =
       ([RunLocal h [''nix'', ''flake'', ''archive'', ''--to'', ''ssh://'' @ target, ''--json''],
         Run h (command @ '' switch --option accept-flake-config true --flake ''
                @ path @ ''#'' @ replace domain [] (host h))],
        run h (command @ '' switch --option accept-flake-config true --flake ''
                @ path @ ''#'' @ replace domain [] (host h))))
   \<and> (host h = n @ domain \<and> \<not> contains domain n \<longrightarrow>
        replace domain [] (host h) = n \<and> strip_suffix domain (host h) = n)"
  using command_and_target_darwin[of h u] command_and_target_linux[of h]
    deploy_archived[of h command target run_local path run]
    replace_domain_strips[of n] strip_suffix_append[of domain n]
  by metis

theorem deploy_platform_dispatch_witness:
  "deploy archive_ok ssh_ok darwin02 =
     ([RunLocal darwin02 [''nix'', ''flake'', ''archive'', ''--to'',
                          ''ssh://hetzner@darwin02.nix-community.org'', ''--json''],
       Run darwin02
         ''darwin-rebuild switch --option accept-flake-config true --flake /nix/store/src#darwin02''],
      None)
   \<and> deploy archive_ok ssh_ok build01 =
     ([RunLocal build01 [''nix'', ''flake'', ''archive'', ''--to'',
                         ''ssh://build01.nix-community.org'', ''--json''],
       Run build01
         ''sudo nixos-rebuild switch --option accept-flake-config true --flake /nix/store/src#build01''],
      None)"
proof -
  note T = deploy_platform_dispatch
  let ?dt = "''hetzner'' @ ''@'' @ host darwin02"
  let ?bt = "host build01"
  have d: "contains darwin (host darwin02) \<and> user darwin02 = Some ''hetzner''"
    by (simp add: darwin02_def darwin_def)
  from T [where h = darwin02 and u = "''hetzner''"] d
  have dc: "command_and_target darwin02 = (''darwin-rebuild'', ?dt)" by blast
  have da: "archive_ok darwin02 [''nix'', ''flake'', ''archive'', ''--to'', ''ssh://'' @ ?dt, ''--json'']
              = Inr ''/nix/store/src''"
    by (simp add: archive_ok_def)
  have dn: "host darwin02 = ''darwin02'' @ domain \<and> \<not> contains domain ''darwin02''"
    by (simp add: darwin02_def domain_def)
  from T [where h = darwin02 and n = "''darwin02''"] dn
  have dr: "replace domain [] (host darwin02) = ''darwin02''" by blast
  from T [where h = darwin02 and command = "''darwin-rebuild''" and target = ?dt
            and run_local = archive_ok and path = "''/nix/store/src''" and run = ssh_ok] dc da
  have "deploy archive_ok ssh_ok darwin02 =
       ([RunLocal darwin02 [''nix'', ''flake'', ''archive'', ''--to'', ''ssh://'' @ ?dt, ''--json''],
         Run darwin02 (''darwin-rebuild'' @ '' switch --option accept-flake-config true --flake ''
                @ ''/nix/store/src'' @ ''#'' @ replace domain [] (host darwin02))],
        ssh_ok darwin02 (''darwin-rebuild'' @ '' switch --option accept-flake-config true --flake ''
                @ ''/nix/store/src'' @ ''#'' @ replace domain [] (host darwin02)))"
    by blast
  then have 1: "deploy archive_ok ssh_ok darwin02 =
     ([RunLocal darwin02 [''nix'', ''flake'', ''archive'', ''--to'',
                          ''ssh://hetzner@darwin02.nix-community.org'', ''--json''],
       Run darwin02
         ''darwin-rebuild switch --option accept-flake-config true --flake /nix/store/src#darwin02''],
      None)"
    by (simp add: dr ssh_ok_def) (simp add: darwin02_def)
  have l: "\<not> contains darwin (host build01)"
    by (simp add: build01_def darwin_def)
  from T [where h = build01] l
  have lc: "command_and_target build01 = (''sudo nixos-rebuild'', ?bt)" by blast
  have la: "archive_ok build01 [''nix'', ''flake'', ''archive'', ''--to'', ''ssh://'' @ ?bt, ''--json'']
              = Inr ''/nix/store/src''"
    by (simp add: archive_ok_def)
  have ln: "host build01 = ''build01'' @ domain \<and> \<not> contains domain ''build01''"
    by (simp add: build01_def domain_def)
  from T [where h = build01 and n = "''build01''"] ln
  have lr: "replace domain [] (host build01) = ''build01''" by blast
  from T [where h = build01 and command = "''sudo nixos-rebuild''" and target = ?bt
            and run_local = archive_ok and path = "''/nix/store/src''" and run = ssh_ok] lc la
  have "deploy archive_ok ssh_ok build01 =
       ([RunLocal build01 [''nix'', ''flake'', ''archive'', ''--to'', ''ssh://'' @ ?bt, ''--json''],
         Run build01 (''sudo nixos-rebuild'' @ '' switch --option accept-flake-config true --flake ''
                @ ''/nix/store/src'' @ ''#'' @ replace domain [] (host build01))],
        ssh_ok build01 (''sudo nixos-rebuild'' @ '' switch --option accept-flake-config true --flake ''
                @ ''/nix/store/src'' @ ''#'' @ replace domain [] (host build01)))"
    by blast
  then have 2: "deploy archive_ok ssh_ok build01 =
     ([RunLocal build01 [''nix'', ''flake'', ''archive'', ''--to'',
                         ''ssh://build01.nix-community.org'', ''--json''],
       Run build01
         ''sudo nixos-rebuild switch --option accept-flake-config true --flake /nix/store/src#build01''],
      None)"
    by (simp add: lr ssh_ok_def) (simp add: build01_def)
  from 1 2 show ?thesis by (rule conjI)
qed

text \<open>
  Claim C1 as stated fails twice. The spec \<^verbatim>\<open>build01.nix-community.org\<close> resolves to a
  host whose address ends with the domain twice; the attribute the deploy unit uses
  for it is \<^verbatim>\<open>build01\<close>, while stripping the suffix from the address gives
  \<^verbatim>\<open>build01.nix-community.org\<close>. And a declared name \<^verbatim>\<open>darwin03\<close> of the inventory
  resolves to a darwin host with no login user, whose target is \<^verbatim>\<open>None@\<close> followed
  by the address.
\<close>

theorem deploy_attribute_not_suffix_strip_counterexample:
  "get_hosts (Inr []) ''build01.nix-community.org'' = Inr [build01_twice]
   \<and> deploy archive_ok ssh_ok build01_twice =
     ([RunLocal build01_twice
         [''nix'', ''flake'', ''archive'', ''--to'',
          ''ssh://build01.nix-community.org.nix-community.org'', ''--json''],
       Run build01_twice
         ''sudo nixos-rebuild switch --option accept-flake-config true --flake /nix/store/src#build01''],
      None)
   \<and> strip_suffix domain (host build01_twice) = ''build01.nix-community.org''
   \<and> get_hosts (Inr [''darwin03'']) [] = Inr [darwin03]
   \<and> deploy archive_ok ssh_ok darwin03 =
     ([RunLocal darwin03
         [''nix'', ''flake'', ''archive'', ''--to'',
          ''ssh://None@darwin03.nix-community.org'', ''--json''],
       Run darwin03
         ''darwin-rebuild switch --option accept-flake-config true --flake /nix/store/src#darwin03''],
      None)"
  by (simp add: get_hosts_def deploy_def command_and_target_def Let_def build01_twice_def
        darwin03_def archive_ok_def ssh_ok_def darwin_def domain_def strip_suffix_def suffix_def
        replace.simps)


end
